theory Spec2Isabelle
  imports Complex_Main "HOL-Library.Word" "HOL-Library.Sublist" "HOL-Library.Product_Order"
begin

section \<open>Image utilities of the Mask R-CNN port (imageutils.cpp)\<close>

text \<open>
  The development embeds \<^verbatim>\<open>ResizeImage\<close>, \<^verbatim>\<open>UnmoldMask\<close>, \<^verbatim>\<open>UnmoldDetections\<close> and
  \<^verbatim>\<open>ResizeMasks\<close> of \<^verbatim>\<open>src/mask_rcnn_pytorch/imageutils.cpp\<close>.

  Conventions of the embedding.
  \<^item> A \<^verbatim>\<open>cv::Mat\<close> and a two-dimensional tensor are lists of rows.
  \<^item> A \<^verbatim>\<open>float\<close> is a real number and every float operation is the exact operation on
    the reals: the rounding of single precision is not represented. What is represented is
    the division by zero, which in C++ gives an infinity or a NaN and no exception
    (type \<open>xreal\<close>).
  \<^item> \<^verbatim>\<open>int\<close>, \<^verbatim>\<open>int32_t\<close> and \<^verbatim>\<open>int64_t\<close> values are integers. Where the source computes
    on 32-bit tensor elements the wrap-around is written out (\<open>wrap32\<close>); where C++ leaves
    a conversion or an overflow undefined the model returns the error \<open>Undefined\<close>.
  \<^item> An exception thrown by OpenCV (a failed \<^verbatim>\<open>CV_Assert\<close>) is the error \<open>CvError\<close>, one
    thrown by libtorch is \<open>TorchError\<close>.
  \<^item> The pixel interpolation of \<^verbatim>\<open>cv::resize\<close> belongs to OpenCV and is a parameter \<open>rs\<close>
    of the functions that call it; the theorems name what they assume of it.
\<close>

subsection \<open>Errors and float values\<close>

datatype error = CvError | TorchError | Undefined

datatype xreal = Fin real | PInf | MInf | NaN

text \<open>\<^verbatim>\<open>a / b\<close> on floats.\<close>

fun fdiv :: "xreal \<Rightarrow> xreal \<Rightarrow> xreal" where
  "fdiv (Fin a) (Fin b) =
     (if b \<noteq> 0 then Fin (a / b)
      else if 0 < a then PInf else if a < 0 then MInf else NaN)"
| "fdiv _ _ = NaN"

text \<open>\<^verbatim>\<open>a * b\<close> on floats.\<close>

fun fmul :: "xreal \<Rightarrow> xreal \<Rightarrow> xreal" where
  "fmul (Fin a) (Fin b) = Fin (a * b)"
| "fmul NaN _ = NaN"
| "fmul _ NaN = NaN"
| "fmul (Fin a) PInf = (if 0 < a then PInf else if a < 0 then MInf else NaN)"
| "fmul (Fin a) MInf = (if 0 < a then MInf else if a < 0 then PInf else NaN)"
| "fmul PInf (Fin b) = (if 0 < b then PInf else if b < 0 then MInf else NaN)"
| "fmul MInf (Fin b) = (if 0 < b then MInf else if b < 0 then PInf else NaN)"
| "fmul PInf PInf = PInf"
| "fmul MInf MInf = PInf"
| "fmul PInf MInf = MInf"
| "fmul MInf PInf = MInf"

text \<open>\<^verbatim>\<open>a < b\<close> on floats: false as soon as one side is a NaN.\<close>

fun fless :: "xreal \<Rightarrow> xreal \<Rightarrow> bool" where
  "fless (Fin a) (Fin b) = (a < b)"
| "fless NaN _ = False"
| "fless _ NaN = False"
| "fless PInf _ = False"
| "fless _ MInf = False"
| "fless _ _ = True"

text \<open>\<^verbatim>\<open>std::max(a, b)\<close> is \<^verbatim>\<open>(a < b) ? b : a\<close> and \<^verbatim>\<open>std::min(a, b)\<close> is
  \<^verbatim>\<open>(b < a) ? b : a\<close>.\<close>

definition fmax :: "xreal \<Rightarrow> xreal \<Rightarrow> xreal" where
  "fmax a b = (if fless a b then b else a)"

definition fmin :: "xreal \<Rightarrow> xreal \<Rightarrow> xreal" where
  "fmin a b = (if fless b a then b else a)"

text \<open>\<^verbatim>\<open>std::round\<close>: to the nearest integer, halves away from zero.\<close>

definition cround :: "real \<Rightarrow> int" where
  "cround x = (if 0 \<le> x then \<lfloor>x + 1 / 2\<rfloor> else \<lceil>x - 1 / 2\<rceil>)"

fun fround :: "xreal \<Rightarrow> xreal" where
  "fround (Fin a) = Fin (of_int (cround a))"
| "fround x = x"

text \<open>The conversion of a float to an integer type truncates towards zero.\<close>

definition ctrunc :: "real \<Rightarrow> int" where
  "ctrunc x = (if 0 \<le> x then \<lfloor>x\<rfloor> else \<lceil>x\<rceil>)"

text \<open>Integer division of C++ truncates towards zero.\<close>

definition c_div :: "int \<Rightarrow> int \<Rightarrow> int" where
  "c_div a b = sgn a * sgn b * (\<bar>a\<bar> div \<bar>b\<bar>)"

text \<open>The range of a 32-bit and of a 64-bit signed integer.\<close>

definition in_int32 :: "int \<Rightarrow> bool" where
  "in_int32 v = (- 2147483648 \<le> v \<and> v \<le> 2147483647)"

definition in_int64 :: "int \<Rightarrow> bool" where
  "in_int64 v = (- 9223372036854775808 \<le> v \<and> v \<le> 9223372036854775807)"

text \<open>The value a 32-bit two's complement element holds after an operation on tensors.\<close>

definition wrap32 :: "int \<Rightarrow> int" where
  "wrap32 v = (v + 2147483648) mod 4294967296 - 2147483648"

text \<open>
  The conversion of a float to \<^verbatim>\<open>int\<close> and to \<^verbatim>\<open>int64_t\<close>: undefined in C++ when the
  truncated value is out of range, or the float is not finite.
\<close>

fun to_int32 :: "xreal \<Rightarrow> error + int" where
  "to_int32 (Fin x) = (if in_int32 (ctrunc x) then Inr (ctrunc x) else Inl Undefined)"
| "to_int32 _ = Inl Undefined"

definition to_int64 :: "real \<Rightarrow> error + int" where
  "to_int64 x = (if in_int64 (ctrunc x) then Inr (ctrunc x) else Inl Undefined)"

text \<open>Running a sequence of fallible steps in order: the first error ends it.\<close>

fun collect :: "(error + 'a) list \<Rightarrow> error + 'a list" where
  "collect [] = Inr []"
| "collect (x # xs) =
     (case x of
        Inl e \<Rightarrow> Inl e
      | Inr v \<Rightarrow> (case collect xs of Inl e \<Rightarrow> Inl e | Inr vs \<Rightarrow> Inr (v # vs)))"

subsection \<open>Geometry types\<close>

text \<open>
  Modelled from the spec: the declaration of \<^verbatim>\<open>Window\<close> is in \<^verbatim>\<open>imageutils.h\<close>, which is
  not among the sources. The spec gives it as the integers \<open>{y1, x1, y2, x2}\<close>; the source
  initialises it in this order and reads the fields under these names.
\<close>

record Window =
  y1 :: int
  x1 :: int
  y2 :: int
  x2 :: int

text \<open>
  Modelled from the spec: the declaration of \<^verbatim>\<open>Padding\<close> is in the same missing header.
  The source initialises it with six values, the four amounts and two zeros; the spec names
  the four and calls the last two unused placeholders.
\<close>

record Padding =
  top_pad :: int
  bottom_pad :: int
  left_pad :: int
  right_pad :: int
  unused5 :: int
  unused6 :: int

text \<open>
  Modelled from the spec: the value of a default-constructed \<^verbatim>\<open>Padding\<close> (the declaration
  is in the missing header). The spec gives it as all zero.
\<close>

definition Padding_default :: Padding where
  "Padding_default =
     \<lparr>top_pad = 0, bottom_pad = 0, left_pad = 0, right_pad = 0, unused5 = 0, unused6 = 0\<rparr>"

text \<open>\<^verbatim>\<open>cv::Size\<close>.\<close>

record Size =
  width :: int
  height :: int

subsection \<open>Matrices and the OpenCV operations the source calls\<close>

type_synonym 'a Mat = "'a list list"

definition mat_rows :: "'a Mat \<Rightarrow> int" where
  "mat_rows m = int (length m)"

definition mat_cols :: "'a Mat \<Rightarrow> int" where
  "mat_cols m = (case m of [] \<Rightarrow> 0 | r # _ \<Rightarrow> int (length r))"

text \<open>A matrix of \<open>h\<close> rows and \<open>w\<close> columns.\<close>

definition has_size :: "'a Mat \<Rightarrow> int \<Rightarrow> int \<Rightarrow> bool" where
  "has_size m h w = (int (length m) = h \<and> list_all (\<lambda>r. int (length r) = w) m)"

text \<open>
  \<^verbatim>\<open>cv::resize(src, dst, cv::Size(dw, dh))\<close>: OpenCV asserts that the source is not empty
  and, the scale factors being left at zero, that the requested size is not empty. The
  pixels come from the interpolation \<open>rs\<close>.
\<close>

definition cv_resize ::
  "('a Mat \<Rightarrow> int \<Rightarrow> int \<Rightarrow> 'a Mat) \<Rightarrow> 'a Mat \<Rightarrow> int \<Rightarrow> int \<Rightarrow> error + 'a Mat" where
  "cv_resize rs src dw dh =
     (if mat_rows src \<le> 0 \<or> mat_cols src \<le> 0 \<or> dw \<le> 0 \<or> dh \<le> 0 then Inl CvError
      else Inr (rs src dw dh))"

text \<open>
  What the theorems assume of the interpolation, where they say so: on a source that is not
  empty the result has the requested size (\<open>resize_size_ok\<close>), and no pixel of the result
  lies outside the bounds of the source's pixels, as for any interpolation by weights that
  are not negative and add up to one (\<open>resize_between\<close>).
\<close>

definition resize_size_ok :: "('a Mat \<Rightarrow> int \<Rightarrow> int \<Rightarrow> 'a Mat) \<Rightarrow> bool" where
  "resize_size_ok rs =
     (\<forall>src h w dw dh. has_size src h w \<and> 0 < h \<and> 0 < w \<and> 0 < dw \<and> 0 < dh
        \<longrightarrow> has_size (rs src dw dh) dh dw)"

definition resize_between :: "(real Mat \<Rightarrow> int \<Rightarrow> int \<Rightarrow> real Mat) \<Rightarrow> bool" where
  "resize_between rs =
     (\<forall>src h w dw dh lo hi.
        has_size src h w \<and> 0 < h \<and> 0 < w \<and> 0 < dw \<and> 0 < dh \<and>
        (\<forall>r \<in> set src. \<forall>v \<in> set r. lo \<le> v \<and> v \<le> hi)
        \<longrightarrow> (\<forall>r \<in> set (rs src dw dh). \<forall>v \<in> set r. lo \<le> v \<and> v \<le> hi))"

text \<open>
  \<^verbatim>\<open>cv::copyMakeBorder(src, dst, top, bottom, left, right, BORDER_CONSTANT, value)\<close>:
  OpenCV asserts that the four amounts are not negative.
\<close>

definition copyMakeBorder ::
  "'a Mat \<Rightarrow> int \<Rightarrow> int \<Rightarrow> int \<Rightarrow> int \<Rightarrow> 'a \<Rightarrow> error + 'a Mat" where
  "copyMakeBorder src tp bp lp rp v =
     (if tp < 0 \<or> bp < 0 \<or> lp < 0 \<or> rp < 0 then Inl CvError
      else (let full = nat (lp + mat_cols src + rp) in
        Inr (replicate (nat tp) (replicate full v)
             @ map (\<lambda>r. replicate (nat lp) v @ r @ replicate (nat rp) v) src
             @ replicate (nat bp) (replicate full v))))"

subsection \<open>ResizeImage\<close>

text \<open>The block \<^verbatim>\<open>if (min_dim != 0)\<close>, applied to the default scale 1.\<close>

definition min_dim_scale :: "int \<Rightarrow> int \<Rightarrow> int \<Rightarrow> xreal" where
  "min_dim_scale h w min_dim =
     (if min_dim \<noteq> 0
      then fmax (Fin 1) (fdiv (Fin (of_int min_dim)) (Fin (of_int (min h w))))
      else Fin 1)"

text \<open>The block \<^verbatim>\<open>if (max_dim != 0)\<close>.\<close>

definition max_dim_scale :: "int \<Rightarrow> int \<Rightarrow> int \<Rightarrow> xreal \<Rightarrow> xreal" where
  "max_dim_scale h w max_dim scale =
     (if max_dim \<noteq> 0
      then (let image_max = max h w in
            if fless (Fin (of_int max_dim)) (fround (fmul (Fin (of_int image_max)) scale))
            then fdiv (Fin (of_int max_dim)) (Fin (of_int image_max))
            else scale)
      else scale)"

text \<open>
  The scale and the resize, the first half of \<^verbatim>\<open>ResizeImage\<close>. The new width and height
  are \<^verbatim>\<open>static_cast<int>(std::round(w * scale))\<close> and the same of \<open>h\<close>.
\<close>

definition resize_step ::
  "('a Mat \<Rightarrow> int \<Rightarrow> int \<Rightarrow> 'a Mat) \<Rightarrow> 'a Mat \<Rightarrow> int \<Rightarrow> int \<Rightarrow> error + ('a Mat \<times> real)" where
  "resize_step rs img min_dim max_dim =
     (let h = mat_rows img;
          w = mat_cols img;
          scale = max_dim_scale h w max_dim (min_dim_scale h w min_dim)
      in if scale \<noteq> Fin 1
         then (case (to_int32 (fround (fmul (Fin (of_int w)) scale)),
                     to_int32 (fround (fmul (Fin (of_int h)) scale)), scale) of
                 (Inr dw, Inr dh, Fin s) \<Rightarrow>
                   (case cv_resize rs img dw dh of
                      Inl e \<Rightarrow> Inl e
                    | Inr resized \<Rightarrow> Inr (resized, s))
               | _ \<Rightarrow> Inl Undefined)
         else Inr (img, 1))"

text \<open>
  The block \<^verbatim>\<open>if (do_padding)\<close>. It reads the height and width of the image again, so
  after a resize they are those of the resized image.
\<close>

definition pad_image ::
  "'a::zero Mat \<Rightarrow> int \<Rightarrow> real \<Rightarrow> error + ('a Mat \<times> Window \<times> real \<times> Padding)" where
  "pad_image img max_dim scale =
     (let h = mat_rows img;
          w = mat_cols img
      in if in_int32 (max_dim - h) \<and> in_int32 (max_dim - w)
         then
          (let tp = c_div (max_dim - h) 2;
               bp = max_dim - h - tp;
               lp = c_div (max_dim - w) 2;
               rp = max_dim - w - lp
           in case copyMakeBorder img tp bp lp rp 0 of
                Inl e \<Rightarrow> Inl e
              | Inr padded \<Rightarrow>
                  Inr (padded,
                       \<lparr>y1 = tp, x1 = lp, y2 = h + tp, x2 = w + lp\<rparr>,
                       scale,
                       \<lparr>top_pad = tp, bottom_pad = bp, left_pad = lp, right_pad = rp,
                        unused5 = 0, unused6 = 0\<rparr>))
         else Inl Undefined)"

text \<open>
  \<^verbatim>\<open>ResizeImage\<close>. The window is built from the height and width of the input before
  anything else and is replaced only in the padding block.
\<close>

definition ResizeImage ::
  "('a::zero Mat \<Rightarrow> int \<Rightarrow> int \<Rightarrow> 'a Mat) \<Rightarrow> 'a Mat \<Rightarrow> int \<Rightarrow> int \<Rightarrow> bool
     \<Rightarrow> error + ('a Mat \<times> Window \<times> real \<times> Padding)" where
  "ResizeImage rs img min_dim max_dim do_padding =
     (let h = mat_rows img;
          w = mat_cols img;
          window = \<lparr>y1 = 0, x1 = 0, y2 = h, x2 = w\<rparr>;
          padding = Padding_default
      in case resize_step rs img min_dim max_dim of
           Inl e \<Rightarrow> Inl e
         | Inr (resized, scale) \<Rightarrow>
             if do_padding then pad_image resized max_dim scale
             else Inr (resized, window, scale, padding))"

text \<open>An image of three 8-bit channels.\<close>

type_synonym pixel = "8 word \<times> 8 word \<times> 8 word"

text \<open>
  A nearest-neighbour interpolation, used where a theorem is applied to a concrete input in
  place of the interpolation of OpenCV.
\<close>

definition nearest :: "'a Mat \<Rightarrow> int \<Rightarrow> int \<Rightarrow> 'a Mat" where
  "nearest src dw dh =
     map (\<lambda>i. map (\<lambda>j. src ! (i * length src div nat dh)
                          ! (j * length (hd src) div nat dw)) [0..<nat dw]) [0..<nat dh]"

subsection \<open>UnmoldMask\<close>

text \<open>\<^verbatim>\<open>cv::threshold(src, dst, thresh, maxval, THRESH_BINARY)\<close>.\<close>

definition cv_threshold :: "real Mat \<Rightarrow> real \<Rightarrow> real \<Rightarrow> real Mat" where
  "cv_threshold src thresh maxval = map (map (\<lambda>v. if thresh < v then maxval else 0)) src"

text \<open>\<^verbatim>\<open>cv::Mat::zeros(size, CV_32FC1)\<close>; a negative size is refused.\<close>

definition zeros :: "Size \<Rightarrow> error + real Mat" where
  "zeros sz =
     (if width sz < 0 \<or> height sz < 0 then Inl CvError
      else Inr (replicate (nat (height sz)) (replicate (nat (width sz)) 0)))"

text \<open>Writing \<open>src\<close> over the elements of a row from column \<open>x\<close> on, and over the rows of a
  matrix from row \<open>y\<close>, column \<open>x\<close> on.\<close>

definition paste_row :: "'a list \<Rightarrow> nat \<Rightarrow> 'a list \<Rightarrow> 'a list" where
  "paste_row dst x src = take x dst @ src @ drop (x + length src) dst"

definition paste :: "'a Mat \<Rightarrow> nat \<Rightarrow> nat \<Rightarrow> 'a Mat \<Rightarrow> 'a Mat" where
  "paste dst y x src =
     take y dst
     @ map (\<lambda>(d, s). paste_row d x s) (zip (take (length src) (drop y dst)) src)
     @ drop (y + length src) dst"

text \<open>
  \<^verbatim>\<open>src.copyTo(dst(cv::Rect(x, y, w, h)))\<close> on a matrix of \<open>rows\<close> rows and \<open>cols\<close> columns:
  taking the region asserts that the rectangle lies inside the matrix.
\<close>

definition copyTo_roi ::
  "'a Mat \<Rightarrow> int \<Rightarrow> int \<Rightarrow> int \<Rightarrow> int \<Rightarrow> int \<Rightarrow> int \<Rightarrow> 'a Mat \<Rightarrow> error + 'a Mat" where
  "copyTo_roi dst rows cols x y w h src =
     (if 0 \<le> x \<and> 0 \<le> w \<and> x + w \<le> cols \<and> 0 \<le> y \<and> 0 \<le> h \<and> y + h \<le> rows
      then Inr (paste dst (nat y) (nat x) src)
      else Inl CvError)"

text \<open>\<^verbatim>\<open>cvRound\<close> rounds to the nearest integer, halves to the even one; the conversion to
  8 bits saturates.\<close>

definition cvRound :: "real \<Rightarrow> int" where
  "cvRound x =
     (let f = \<lfloor>x\<rfloor>; d = x - of_int f
      in if d < 1 / 2 then f else if 1 / 2 < d then f + 1 else if even f then f else f + 1)"

definition saturate_uchar :: "real \<Rightarrow> 8 word" where
  "saturate_uchar v = word_of_int (max 0 (min 255 (cvRound v)))"

text \<open>
  \<^verbatim>\<open>UnmoldMask\<close>. The box is a tensor of four 32-bit integers \<open>y1, x1, y2, x2\<close>; the
  differences \<^verbatim>\<open>x2 - x1\<close> and \<^verbatim>\<open>y2 - y1\<close> are computed on \<^verbatim>\<open>int\<close>.
\<close>

definition UnmoldMask ::
  "(real Mat \<Rightarrow> int \<Rightarrow> int \<Rightarrow> real Mat) \<Rightarrow> real Mat \<Rightarrow> int list \<Rightarrow> Size \<Rightarrow> error + 8 word Mat" where
  "UnmoldMask rs msk bbox image_shape =
     (if length bbox < 4 then Inl TorchError
      else
       (let by1 = bbox ! 0; bx1 = bbox ! 1; by2 = bbox ! 2; bx2 = bbox ! 3
        in if in_int32 (bx2 - bx1) \<and> in_int32 (by2 - by1)
           then
            (case cv_resize rs msk (bx2 - bx1) (by2 - by1) of
               Inl e \<Rightarrow> Inl e
             | Inr resized \<Rightarrow>
                 (let cv_mask = map (map (\<lambda>v. v * 255)) (cv_threshold resized (1 / 2) 1)
                  in case zeros image_shape of
                       Inl e \<Rightarrow> Inl e
                     | Inr canvas \<Rightarrow>
                         (case copyTo_roi canvas (height image_shape) (width image_shape)
                                 bx1 by1 (bx2 - bx1) (by2 - by1) cv_mask of
                            Inl e \<Rightarrow> Inl e
                          | Inr full_mask \<Rightarrow> Inr (map (map saturate_uchar) full_mask))))
           else Inl Undefined))"

text \<open>
  The boxes for which the resize target is not degenerate and the paste rectangle lies in
  the image: \<open>0 \<le> x1 < x2 \<le> width\<close> and \<open>0 \<le> y1 < y2 \<le> height\<close>.
\<close>

definition box_inside :: "Size \<Rightarrow> int list \<Rightarrow> bool" where
  "box_inside image_shape b =
     (0 \<le> b ! 1 \<and> b ! 1 < b ! 3 \<and> b ! 3 \<le> width image_shape \<and>
      0 \<le> b ! 0 \<and> b ! 0 < b ! 2 \<and> b ! 2 \<le> height image_shape)"

text \<open>The number of pixels of a mask that are 255.\<close>

definition count_255 :: "8 word Mat \<Rightarrow> nat" where
  "count_255 m = sum_list (map (\<lambda>r. length (filter (\<lambda>v. v = 255) r)) m)"

subsection \<open>UnmoldDetections\<close>

text \<open>\<^verbatim>\<open>nonzero()\<close> of a column of booleans: the indices of the true rows, in order.\<close>

definition nonzero :: "bool list \<Rightarrow> nat list" where
  "nonzero bs = filter (\<lambda>i. bs ! i) [0..<length bs]"

text \<open>
  The count \<open>N\<close>. The index of the first row with class id 0 is an element of a 64-bit index
  tensor and the source reads it through \<^verbatim>\<open>data<uint8_t>()\<close>: what arrives is its lowest byte
  (on a little-endian machine; a libtorch that checks the element type refuses the access).
\<close>

definition detection_count :: "real list list \<Rightarrow> nat" where
  "detection_count detections =
     (let zero_ix = nonzero (map (\<lambda>r. r ! 4 = 0) detections)
      in if 0 < length zero_ix then unat (of_nat (hd zero_ix) :: 8 word)
         else length detections)"

text \<open>
  Modelled from the spec: \<^verbatim>\<open>index_select_2d\<close> is declared in \<^verbatim>\<open>nnutils.h\<close>, which is not
  among the sources. By the spec it selects, for each detection, the mask slice of that
  detection's class id from the per-class stack of low-resolution masks (the source's comment:
  \<^verbatim>\<open>[np.arange(N), :, :, class_ids]\<close>). The stack is indexed here by detection, then class.
\<close>

definition index_select_2d :: "nat list \<Rightarrow> int list \<Rightarrow> 'a list list \<Rightarrow> error + 'a list" where
  "index_select_2d row_ix col_ix m =
     collect (map (\<lambda>(i, c). if i < length m \<and> 0 \<le> c \<and> nat c < length (m ! i)
                             then Inr (m ! i ! nat c) else Inl TorchError)
                  (zip row_ix col_ix))"

text \<open>\<^verbatim>\<open>t.index_select(0, ix)\<close>.\<close>

definition index_select :: "'a list \<Rightarrow> nat list \<Rightarrow> 'a list" where
  "index_select t ix = map (\<lambda>i. t ! i) ix"

text \<open>
  \<^verbatim>\<open>((boxes - shifts) * scales).to(at::dtype(at::kInt))\<close>: the two vectors of four are
  broadcast over the rows.
\<close>

definition translate_boxes :: "real list list \<Rightarrow> real list \<Rightarrow> xreal list \<Rightarrow> error + int list list" where
  "translate_boxes boxes shifts scales =
     collect (map (\<lambda>row. collect (map to_int32
                (map2 (\<lambda>d s. fmul (Fin d) s) (map2 (\<lambda>b s. b - s) row shifts) scales)))
              boxes)"

text \<open>The area test of the filter, on 32-bit elements.\<close>

definition box_area :: "int list \<Rightarrow> int" where
  "box_area b = wrap32 (wrap32 (b ! 2 - b ! 0) * wrap32 (b ! 3 - b ! 1))"

text \<open>
  \<^verbatim>\<open>UnmoldDetections\<close>. Rows of \<open>detections\<close> are \<open>y1, x1, y2, x2, class_id, score\<close>.
  \<^verbatim>\<open>include_ix\<close> is squeezed: with exactly one index it has no dimension left and
  \<^verbatim>\<open>include_ix.size(0)\<close> throws. The branch for an empty \<^verbatim>\<open>include_ix\<close> holds only the
  comment \<^verbatim>\<open>TODO: make empty tensors\<close>, so nothing is removed there and \<open>N\<close> stays.
\<close>

definition UnmoldDetections ::
  "(real Mat \<Rightarrow> int \<Rightarrow> int \<Rightarrow> real Mat) \<Rightarrow> real list list \<Rightarrow> real Mat list list \<Rightarrow> Size \<Rightarrow> Window
     \<Rightarrow> error + (int list list \<times> int list \<times> real list list \<times> 8 word Mat list)" where
  "UnmoldDetections rs detections mrcnn_mask image_shape window =
     (if list_all (\<lambda>r. 6 \<le> length r) detections
      then
       (let N = detection_count detections;
            boxes = map (take 4) (take N detections);
            scores = map (\<lambda>r. take 1 (drop 5 r)) (take N detections)
        in case collect (map (\<lambda>r. to_int64 (r ! 4)) (take N detections)) of
             Inl e \<Rightarrow> Inl e
           | Inr class_ids \<Rightarrow>
          (case index_select_2d [0..<N] class_ids mrcnn_mask of
             Inl e \<Rightarrow> Inl e
           | Inr masks \<Rightarrow>
          (if in_int32 (y2 window - y1 window) \<and> in_int32 (x2 window - x1 window)
           then
            (let h_scale = fdiv (Fin (of_int (height image_shape)))
                             (Fin (of_int (y2 window - y1 window)));
                 w_scale = fdiv (Fin (of_int (width image_shape)))
                             (Fin (of_int (x2 window - x1 window)));
                 scale = fmin h_scale w_scale;
                 scales = [scale, scale, scale, scale];
                 shifts = [of_int (y1 window), of_int (x1 window),
                           of_int (y1 window), of_int (x1 window)]
             in case translate_boxes boxes shifts scales of
                  Inl e \<Rightarrow> Inl e
                | Inr boxes \<Rightarrow>
                 (let include_ix = nonzero (map (\<lambda>b. 0 < box_area b) boxes)
                  in if length include_ix = 1 then Inl TorchError
                     else
                      (let (boxes, class_ids, scores, masks, N) =
                             (if 0 < length include_ix
                              then (index_select boxes include_ix,
                                    index_select class_ids include_ix,
                                    index_select scores include_ix,
                                    index_select masks include_ix,
                                    length (index_select class_ids include_ix))
                              else (boxes, class_ids, scores, masks, N))
                       in case collect (map (\<lambda>i. UnmoldMask rs (masks ! i) (boxes ! i)
                                                     image_shape) [0..<N]) of
                            Inl e \<Rightarrow> Inl e
                          | Inr full_masks_vec \<Rightarrow>
                              Inr (boxes, class_ids, scores, full_masks_vec))))
           else Inl Undefined)))
      else Inl TorchError)"

text \<open>
  The remapping of one box in the words of the specification: \<open>h_scale\<close> and \<open>w_scale\<close>,
  their minimum as the one scale, the shift by \<open>(y1, x1, y1, x1)\<close> of the window, the
  product with the scale, and the truncation to an integer.
\<close>

definition remap_box_spec :: "Size \<Rightarrow> Window \<Rightarrow> real list \<Rightarrow> int list" where
  "remap_box_spec image_shape window row =
     (let h_scale = real_of_int (height image_shape) / real_of_int (y2 window - y1 window);
          w_scale = real_of_int (width image_shape) / real_of_int (x2 window - x1 window);
          scale = min h_scale w_scale
      in [ctrunc ((row ! 0 - real_of_int (y1 window)) * scale),
          ctrunc ((row ! 1 - real_of_int (x1 window)) * scale),
          ctrunc ((row ! 2 - real_of_int (y1 window)) * scale),
          ctrunc ((row ! 3 - real_of_int (x1 window)) * scale)])"

subsection \<open>ResizeMasks\<close>



subsection \<open>Concrete inputs\<close>

text \<open>A low-resolution mask of all ones, a stack of two classes for each of three
  detections, and buffers of detections padded with a zero row.\<close>

definition lowres :: "real Mat" where
  "lowres = [[1, 1], [1, 1]]"

definition stack3 :: "real Mat list list" where
  "stack3 = [[lowres, lowres], [lowres, lowres], [lowres, lowres]]"

text \<open>Two boxes inside a window \<open>{2, 2, 8, 10}\<close>.\<close>

definition dets_ok :: "real list list" where
  "dets_ok = [[2, 2, 6, 6, 1, 9 / 10], [4, 4, 8, 10, 1, 4 / 5], [0, 0, 0, 0, 0, 0]]"

text \<open>Two boxes of no area: the first has no height, the second no width.\<close>

definition dets_flat :: "real list list" where
  "dets_flat = [[2, 2, 2, 6, 1, 9 / 10], [3, 3, 5, 3, 1, 4 / 5], [0, 0, 0, 0, 0, 0]]"


text \<open>256 detections and then the first zero row, at index 256.\<close>

definition dets_257 :: "real list list" where
  "dets_257 = replicate 256 [0, 0, 2, 2, 1, 9 / 10] @ [[0, 0, 0, 0, 0, 0]]"

section \<open>Properties\<close>

subsection \<open>Float values, borders\<close>


lemma fmin_Fin: "fmin (Fin a) (Fin b) = Fin (min a b)"
  by (simp add: fmin_def min_def)





lemma c_div_nonneg: "0 \<le> a \<Longrightarrow> c_div a 2 = a div 2"
  by (cases "a = 0") (simp_all add: c_div_def)

lemma mat_cols_nonneg: "0 \<le> mat_cols m"
  by (simp add: mat_cols_def split: list.splits)

lemma mat_rows_nonneg: "0 \<le> mat_rows m"
  by (simp add: mat_rows_def)

lemma nth_border_row:
  assumes "j < lp + length r + rp"
  shows "(replicate lp v @ r @ replicate rp v) ! j =
           (if lp \<le> j \<and> j < lp + length r then r ! (j - lp) else v)"
  using assms by (auto simp: nth_append)

lemma copyMakeBorder_size:
  assumes "copyMakeBorder src tp bp lp rp v = Inr dst"
    and "list_all (\<lambda>r. int (length r) = mat_cols src) src"
  shows "has_size dst (tp + mat_rows src + bp) (lp + mat_cols src + rp)"
  using assms mat_cols_nonneg [of src]
  by (auto simp: copyMakeBorder_def has_size_def mat_rows_def Let_def list_all_iff
      split: if_splits)

lemma copyMakeBorder_nth:
  assumes "copyMakeBorder src tp bp lp rp v = Inr dst"
    and "list_all (\<lambda>r. int (length r) = mat_cols src) src"
    and "i < nat (tp + mat_rows src + bp)" and "j < nat (lp + mat_cols src + rp)"
  shows "dst ! i ! j =
           (if nat tp \<le> i \<and> i < nat (tp + mat_rows src) \<and> nat lp \<le> j \<and> j < nat (lp + mat_cols src)
            then src ! (i - nat tp) ! (j - nat lp) else v)"
proof -
  from assms(1) have nn: "0 \<le> tp" "0 \<le> bp" "0 \<le> lp" "0 \<le> rp"
    by (auto simp: copyMakeBorder_def split: if_splits)
  define full where "full = nat (lp + mat_cols src + rp)"
  have dst: "dst = replicate (nat tp) (replicate full v)
             @ map (\<lambda>r. replicate (nat lp) v @ r @ replicate (nat rp) v) src
             @ replicate (nat bp) (replicate full v)"
    using assms(1) nn by (simp add: copyMakeBorder_def full_def Let_def)
  have j: "j < full" using assms(4) by (simp add: full_def)
  consider (top) "i < nat tp" | (mid) "nat tp \<le> i" "i < nat tp + length src"
    | (bot) "nat tp + length src \<le> i"
    by linarith
  then show ?thesis
  proof cases
    case top
    then show ?thesis using j by (simp add: dst nth_append)
  next
    case mid
    then have k: "i - nat tp < length src" by linarith
    then have r: "src ! (i - nat tp) \<in> set src" by (rule nth_mem)
    then have len: "int (length (src ! (i - nat tp))) = mat_cols src"
      using assms(2) by (simp add: list_all_iff)
    have "dst ! i = replicate (nat lp) v @ src ! (i - nat tp) @ replicate (nat rp) v"
      using mid k by (simp add: dst nth_append)
    moreover have "j < nat lp + length (src ! (i - nat tp)) + nat rp"
      using j len nn by (simp add: full_def)
    ultimately show ?thesis
      using mid len nn by (simp add: nth_border_row mat_rows_def) linarith
  next
    case bot
    have k: "i - nat tp - length src < nat bp"
      using assms(3) bot nn by (simp add: mat_rows_def)
    have b: "\<not> i < nat tp" "\<not> i - nat tp < length src"
      using bot by linarith+
    have "dst ! i = replicate (nat bp) (replicate full v) ! (i - nat tp - length src)"
      using b by (simp add: dst nth_append)
    then have "dst ! i ! j = v"
      using k j by simp
    then show ?thesis
      using bot by (simp add: mat_rows_def nat_add_distrib nn)
  qed
qed

lemma copyMakeBorder_ok:
  assumes "0 \<le> tp" "0 \<le> bp" "0 \<le> lp" "0 \<le> rp"
  shows "\<exists>dst. copyMakeBorder src tp bp lp rp v = Inr dst"
  using assms by (simp add: copyMakeBorder_def Let_def)

subsection \<open>ResizeImage\<close>

text \<open>
  C6. With \<open>min_dim = 0\<close>, \<open>max_dim = 0\<close> and no padding, \<^verbatim>\<open>ResizeImage\<close> returns, for
  every image, the image itself, the scale 1, the window \<open>{0, 0, h, w}\<close> of the image's
  height and width, and the padding \<open>{0, 0, 0, 0}\<close>.
\<close>

theorem ResizeImage_zero_dims:
  "ResizeImage rs img 0 0 False =
     Inr (img, \<lparr>y1 = 0, x1 = 0, y2 = mat_rows img, x2 = mat_cols img\<rparr>, 1,
          \<lparr>top_pad = 0, bottom_pad = 0, left_pad = 0, right_pad = 0, unused5 = 0, unused6 = 0\<rparr>)"
  by (simp add: ResizeImage_def resize_step_def min_dim_scale_def max_dim_scale_def
      Padding_default_def)

theorem ResizeImage_zero_dims_witness:
  "ResizeImage nearest [[(1, 2, 3) :: pixel, (4, 5, 6)]] 0 0 False =
     Inr ([[(1, 2, 3), (4, 5, 6)]], \<lparr>y1 = 0, x1 = 0, y2 = 1, x2 = 2\<rparr>, 1,
          \<lparr>top_pad = 0, bottom_pad = 0, left_pad = 0, right_pad = 0, unused5 = 0, unused6 = 0\<rparr>)"
  using ResizeImage_zero_dims [of nearest "[[(1, 2, 3) :: pixel, (4, 5, 6)]]"]
  by (simp add: mat_rows_def mat_cols_def)



text \<open>
  C7. With padding requested, when the resized image (\<open>h\<close> rows, \<open>w\<close> columns) fits within
  \<open>max_dim\<close> in both dimensions, the result is a \<open>max_dim \<times> max_dim\<close> canvas; the top and
  left padding are the floor of half the missing amount, the bottom and right padding the
  remainder; the returned window is \<open>{top, left, h + top, w + left}\<close>; inside the window the
  canvas holds the resized image and everywhere else it is zero.
\<close>

theorem ResizeImage_padding:
  assumes "resize_step rs img min_dim max_dim = Inr (resized, scale)"
    and "list_all (\<lambda>r. int (length r) = mat_cols resized) resized"
    and "mat_rows resized \<le> max_dim" and "mat_cols resized \<le> max_dim"
    and "max_dim \<le> 2147483647"
  shows "let h = mat_rows resized; w = mat_cols resized;
             tp = (max_dim - h) div 2; bp = max_dim - h - tp;
             lp = (max_dim - w) div 2; rp = max_dim - w - lp
         in \<exists>canvas.
              ResizeImage rs img min_dim max_dim True =
                Inr (canvas, \<lparr>y1 = tp, x1 = lp, y2 = h + tp, x2 = w + lp\<rparr>, scale,
                     \<lparr>top_pad = tp, bottom_pad = bp, left_pad = lp, right_pad = rp,
                      unused5 = 0, unused6 = 0\<rparr>) \<and>
              has_size canvas max_dim max_dim \<and>
              (\<forall>i j. 0 \<le> i \<and> i < max_dim \<and> 0 \<le> j \<and> j < max_dim \<longrightarrow>
                 canvas ! nat i ! nat j =
                   (if tp \<le> i \<and> i < h + tp \<and> lp \<le> j \<and> j < w + lp
                    then resized ! nat (i - tp) ! nat (j - lp) else 0))"
proof -
  define h where "h = mat_rows resized"
  define w where "w = mat_cols resized"
  define tp where "tp = (max_dim - h) div 2"
  define bp where "bp = max_dim - h - tp"
  define lp where "lp = (max_dim - w) div 2"
  define rp where "rp = max_dim - w - lp"
  have h0: "0 \<le> h" and w0: "0 \<le> w"
    by (simp_all add: h_def w_def mat_rows_nonneg mat_cols_nonneg)
  have hm: "h \<le> max_dim" and wm: "w \<le> max_dim"
    using assms(3,4) by (simp_all add: h_def w_def)
  have nn: "0 \<le> tp" "0 \<le> bp" "0 \<le> lp" "0 \<le> rp"
    using hm wm by (simp_all add: tp_def bp_def lp_def rp_def)
  have rng: "in_int32 (max_dim - h)" "in_int32 (max_dim - w)"
    using h0 w0 hm wm assms(5) by (simp_all add: in_int32_def)
  have cd: "c_div (max_dim - h) 2 = tp" "c_div (max_dim - w) 2 = lp"
    using hm wm by (simp_all add: c_div_nonneg tp_def lp_def)
  obtain canvas where cv: "copyMakeBorder resized tp bp lp rp 0 = Inr canvas"
    using copyMakeBorder_ok [OF nn, of resized 0] by blast
  have res: "ResizeImage rs img min_dim max_dim True =
      Inr (canvas, \<lparr>y1 = tp, x1 = lp, y2 = h + tp, x2 = w + lp\<rparr>, scale,
           \<lparr>top_pad = tp, bottom_pad = bp, left_pad = lp, right_pad = rp,
            unused5 = 0, unused6 = 0\<rparr>)"
    using assms(1) rng cd cv
    by (simp add: ResizeImage_def pad_image_def Let_def h_def [symmetric] w_def [symmetric]
        bp_def [symmetric] rp_def [symmetric])
  have sz: "has_size canvas max_dim max_dim"
    using copyMakeBorder_size [OF cv assms(2)]
    by (simp add: h_def [symmetric] w_def [symmetric] bp_def rp_def)
  have px: "canvas ! nat i ! nat j =
              (if tp \<le> i \<and> i < h + tp \<and> lp \<le> j \<and> j < w + lp
               then resized ! nat (i - tp) ! nat (j - lp) else 0)"
    if "0 \<le> i" "i < max_dim" "0 \<le> j" "j < max_dim" for i j
  proof -
    have "nat i < nat (tp + mat_rows resized + bp)" "nat j < nat (lp + mat_cols resized + rp)"
      using that by (simp_all add: h_def [symmetric] w_def [symmetric] bp_def rp_def)
    from copyMakeBorder_nth [OF cv assms(2) this]
    show ?thesis
      using that nn h0 w0
      by (simp add: h_def [symmetric] w_def [symmetric] nat_le_iff nat_less_iff nat_diff_distrib
          add.commute)
  qed
  show ?thesis
    unfolding Let_def h_def [symmetric] w_def [symmetric] tp_def [symmetric]
      bp_def [symmetric] lp_def [symmetric] rp_def [symmetric]
    using res sz px by blast
qed

theorem ResizeImage_padding_witness:
  "\<exists>canvas.
     ResizeImage nearest [[(1, 2, 3) :: pixel, (4, 5, 6)]] 2 5 True =
       Inr (canvas, \<lparr>y1 = 1, x1 = 0, y2 = 3, x2 = 4\<rparr>, 2,
            \<lparr>top_pad = 1, bottom_pad = 2, left_pad = 0, right_pad = 1,
             unused5 = 0, unused6 = 0\<rparr>) \<and>
     has_size canvas 5 5 \<and> canvas ! 1 ! 2 = (4, 5, 6) \<and> canvas ! 0 ! 2 = (0, 0, 0)"
proof -
  let ?r = "[[(1, 2, 3), (1, 2, 3), (4, 5, 6), (4, 5, 6)],
             [(1, 2, 3), (1, 2, 3), (4, 5, 6), (4, 5, 6)]] :: pixel Mat"
  have r: "resize_step nearest [[(1, 2, 3) :: pixel, (4, 5, 6)]] 2 5 = Inr (?r, 2)"
    by code_simp
  have rows: "mat_rows ?r = 2" and cols: "mat_cols ?r = 4"
    by (simp_all add: mat_rows_def mat_cols_def)
  have "list_all (\<lambda>row. int (length row) = mat_cols ?r) ?r" "mat_rows ?r \<le> 5"
    "mat_cols ?r \<le> 5" "(5::int) \<le> 2147483647"
    by (simp_all add: rows cols)
  from ResizeImage_padding [OF r this]
  obtain canvas where c:
    "ResizeImage nearest [[(1, 2, 3) :: pixel, (4, 5, 6)]] 2 5 True =
       Inr (canvas, \<lparr>y1 = 1, x1 = 0, y2 = 3, x2 = 4\<rparr>, 2,
            \<lparr>top_pad = 1, bottom_pad = 2, left_pad = 0, right_pad = 1,
             unused5 = 0, unused6 = 0\<rparr>)"
    "has_size canvas 5 5"
    "\<forall>i j. 0 \<le> i \<and> i < 5 \<and> 0 \<le> j \<and> j < 5 \<longrightarrow>
       canvas ! nat i ! nat j =
         (if 1 \<le> i \<and> i < 3 \<and> 0 \<le> j \<and> j < 4 then ?r ! nat (i - 1) ! nat (j - 0)
          else 0)"
    by (auto simp: rows cols Let_def)
  from c(3) [rule_format, of 1 2] c(3) [rule_format, of 0 2]
  have "canvas ! 1 ! 2 = (4, 5, 6)" "canvas ! 0 ! 2 = (0, 0, 0)"
    by (simp_all add: zero_prod_def)
  with c(1,2) show ?thesis by blast
qed

text \<open>
  C3. Without padding the window is to be \<open>{0, 0, height, width}\<close> of the resized image.
  The source builds the window from the height and width of the input, and only the padding
  block reads them again after the resize. So without padding the window is that of the
  input, whatever the scale: an image of one pixel, scaled by 2, comes back with two rows and
  two columns and the window \<open>{0, 0, 1, 1}\<close>.
\<close>

theorem ResizeImage_window_of_input:
  "ResizeImage nearest [[(1, 2, 3) :: pixel]] 2 0 False =
     Inr ([[(1, 2, 3), (1, 2, 3)], [(1, 2, 3), (1, 2, 3)]],
          \<lparr>y1 = 0, x1 = 0, y2 = 1, x2 = 1\<rparr>, 2, Padding_default)"
  by code_simp

text \<open>In general, without padding: the window of the input, the default padding, and the
  image and scale of the resize step.\<close>

lemma ResizeImage_no_padding:
  assumes "ResizeImage rs img min_dim max_dim False = Inr (out, window, scale, padding)"
  shows "window = \<lparr>y1 = 0, x1 = 0, y2 = mat_rows img, x2 = mat_cols img\<rparr> \<and>
         padding = Padding_default \<and>
         resize_step rs img min_dim max_dim = Inr (out, scale)"
  using assms by (auto simp: ResizeImage_def Let_def split: sum.splits)

subsection \<open>UnmoldMask\<close>

lemma has_size_length: "has_size m h w \<Longrightarrow> int (length m) = h"
  by (simp add: has_size_def)

lemma has_size_row: "has_size m h w \<Longrightarrow> i < length m \<Longrightarrow> int (length (m ! i)) = w"
  by (simp add: has_size_def list_all_length)

lemma has_size_map: "has_size (map (map f) m) h w = has_size m h w"
  by (simp add: has_size_def list_all_iff)

lemma has_size_replicate: "0 \<le> h \<Longrightarrow> 0 \<le> w \<Longrightarrow> has_size (replicate (nat h) (replicate (nat w) v)) h w"
  by (simp add: has_size_def list_all_iff)

lemma nth_paste_row:
  assumes "x + length src \<le> length dst" and "j < length dst"
  shows "paste_row dst x src ! j = (if x \<le> j \<and> j < x + length src then src ! (j - x) else dst ! j)"
    and "length (paste_row dst x src) = length dst"
  using assms by (auto simp: paste_row_def nth_append)

lemma length_paste:
  assumes "y + length src \<le> length dst"
  shows "length (paste dst y x src) = length dst"
  using assms by (simp add: paste_def)

lemma nth_paste:
  assumes "y + length src \<le> length dst" and "i < length dst"
  shows "paste dst y x src ! i =
           (if y \<le> i \<and> i < y + length src then paste_row (dst ! i) x (src ! (i - y)) else dst ! i)"
proof -
  consider (a) "i < y" | (b) "y \<le> i" "i < y + length src" | (c) "y + length src \<le> i"
    by linarith
  then show ?thesis
  proof cases
    case a
    then show ?thesis using assms by (simp add: paste_def nth_append)
  next
    case b
    then have k: "i - y < length src" by linarith
    have "\<not> i < y" using b by simp
    then show ?thesis using assms b k by (simp add: paste_def nth_append)
  next
    case c
    then have n: "\<not> i < y" "\<not> i - y < length src" by linarith+
    have "y + length src + (i - y - length src) = i" using c by simp
    then show ?thesis using assms c n by (simp add: paste_def nth_append)
  qed
qed

lemma paste_pixel:
  assumes "has_size dst H W" and "has_size src h w"
    and "int y + h \<le> H" and "int x + w \<le> W" and "i < nat H" and "j < nat W"
  shows "paste dst y x src ! i ! j =
           (if y \<le> i \<and> int i < int y + h \<and> x \<le> j \<and> int j < int x + w
            then src ! (i - y) ! (j - x) else dst ! i ! j)"
    and "length (paste dst y x src ! i) = nat W"
proof -
  have ld: "int (length dst) = H" and ls: "int (length src) = h"
    using assms(1,2) by (simp_all add: has_size_def)
  have yl: "y + length src \<le> length dst" using assms(3) ld ls by linarith
  have il: "i < length dst" using assms(5) ld by linarith
  have rowd: "int (length (dst ! i)) = W" using has_size_row [OF assms(1) il] .
  have jl: "j < length (dst ! i)" using assms(6) rowd by linarith
  show "paste dst y x src ! i ! j =
           (if y \<le> i \<and> int i < int y + h \<and> x \<le> j \<and> int j < int x + w
            then src ! (i - y) ! (j - x) else dst ! i ! j)"
  proof (cases "y \<le> i \<and> i < y + length src")
    case True
    then have k: "i - y < length src" by linarith
    have rows: "int (length (src ! (i - y))) = w" using has_size_row [OF assms(2) k] .
    have xl: "x + length (src ! (i - y)) \<le> length (dst ! i)"
      using assms(4) rows rowd by linarith
    show ?thesis
      using True nth_paste [OF yl il, of x] nth_paste_row(1) [OF xl jl] rows ls
      by (simp; linarith)
  next
    case False
    then show ?thesis
      using nth_paste [OF yl il, of x] ls by (simp; linarith)
  qed
  show "length (paste dst y x src ! i) = nat W"
  proof (cases "y \<le> i \<and> i < y + length src")
    case True
    then have k: "i - y < length src" by linarith
    have rows: "int (length (src ! (i - y))) = w" using has_size_row [OF assms(2) k] .
    have xl: "x + length (src ! (i - y)) \<le> length (dst ! i)"
      using assms(4) rows rowd by linarith
    show ?thesis
      using True nth_paste [OF yl il, of x] nth_paste_row(2) [OF xl jl] rowd
      by simp
  next
    case False
    then show ?thesis
      using nth_paste [OF yl il, of x] rowd by auto
  qed
qed

lemma saturate_uchar_0: "saturate_uchar 0 = 0"
  by (simp add: saturate_uchar_def cvRound_def)

lemma saturate_uchar_255: "saturate_uchar 255 = 255"
  by (simp add: saturate_uchar_def cvRound_def)

lemma UnmoldMask_Inr_inside:
  assumes "UnmoldMask rs msk bbox image_shape = Inr full"
  shows "4 \<le> length bbox \<and> box_inside image_shape bbox"
  using assms
  by (auto simp: UnmoldMask_def Let_def cv_resize_def copyTo_roi_def box_inside_def
      split: if_splits sum.splits)

lemma UnmoldMask_pixels:
  assumes rs: "resize_size_ok rs"
    and msk: "has_size msk mh mw" "0 < mh" "0 < mw"
    and len: "4 \<le> length bbox"
    and box: "box_inside image_shape bbox"
    and rng: "width image_shape \<le> 2147483647" "height image_shape \<le> 2147483647"
  shows "\<exists>full. UnmoldMask rs msk bbox image_shape = Inr full \<and>
           has_size full (height image_shape) (width image_shape) \<and>
           (\<forall>i j. 0 \<le> i \<and> i < height image_shape \<and> 0 \<le> j \<and> j < width image_shape \<longrightarrow>
              full ! nat i ! nat j =
                (if bbox ! 0 \<le> i \<and> i < bbox ! 2 \<and> bbox ! 1 \<le> j \<and> j < bbox ! 3 \<and>
                    1 / 2 < rs msk (bbox ! 3 - bbox ! 1) (bbox ! 2 - bbox ! 0)
                              ! nat (i - bbox ! 0) ! nat (j - bbox ! 1)
                 then 255 else 0))"
proof -
  define by1 where "by1 = bbox ! 0"
  define bx1 where "bx1 = bbox ! 1"
  define by2 where "by2 = bbox ! 2"
  define bx2 where "bx2 = bbox ! 3"
  define H where "H = height image_shape"
  define W where "W = width image_shape"
  define resized where "resized = rs msk (bx2 - bx1) (by2 - by1)"
  define cv_mask where "cv_mask = map (map (\<lambda>v. v * 255)) (cv_threshold resized (1 / 2) 1)"
  define canvas where "canvas = replicate (nat H) (replicate (nat W) (0::real))"
  define pasted where "pasted = paste canvas (nat by1) (nat bx1) cv_mask"
  have b: "0 \<le> bx1" "bx1 < bx2" "bx2 \<le> W" "0 \<le> by1" "by1 < by2" "by2 \<le> H"
    using box by (simp_all add: box_inside_def bx1_def bx2_def by1_def by2_def H_def W_def)
  have i32: "in_int32 (bx2 - bx1)" "in_int32 (by2 - by1)"
    using b rng by (simp_all add: in_int32_def H_def W_def)
  have mr: "0 < mat_rows msk" "0 < mat_cols msk"
    using msk by (auto simp: has_size_def mat_rows_def mat_cols_def split: list.splits)
  have rz: "cv_resize rs msk (bx2 - bx1) (by2 - by1) = Inr resized"
    using b mr by (simp add: cv_resize_def resized_def)
  have rsz: "has_size resized (by2 - by1) (bx2 - bx1)"
    using rs msk b unfolding resize_size_ok_def resized_def by force
  have csz: "has_size cv_mask (by2 - by1) (bx2 - bx1)"
    using rsz by (simp add: cv_mask_def cv_threshold_def has_size_def list_all_iff)
  have z: "zeros image_shape = Inr canvas"
    using b by (simp add: zeros_def canvas_def H_def W_def)
  have zsz: "has_size canvas H W"
    using b by (simp add: canvas_def has_size_replicate)
  have cp: "copyTo_roi canvas H W bx1 by1 (bx2 - bx1) (by2 - by1) cv_mask = Inr pasted"
    using b by (simp add: copyTo_roi_def pasted_def)
  have res: "UnmoldMask rs msk bbox image_shape = Inr (map (map saturate_uchar) pasted)"
    unfolding UnmoldMask_def Let_def bx1_def [symmetric] bx2_def [symmetric]
        by1_def [symmetric] by2_def [symmetric] H_def [symmetric] W_def [symmetric]
    using len i32 rz z cp
    by (simp add: cv_mask_def [symmetric])
  have fit: "int (nat by1) + (by2 - by1) \<le> H" "int (nat bx1) + (bx2 - bx1) \<le> W"
    using b by simp_all
  have lp: "length pasted = nat H"
  proof -
    have "nat by1 + length cv_mask \<le> length canvas"
      using csz zsz b by (simp add: has_size_def; linarith)
    from length_paste [OF this, of "nat bx1"] show ?thesis
      by (simp add: pasted_def canvas_def)
  qed
  have px: "map (map saturate_uchar) pasted ! nat i ! nat j =
              (if by1 \<le> i \<and> i < by2 \<and> bx1 \<le> j \<and> j < bx2 \<and>
                  1 / 2 < resized ! nat (i - by1) ! nat (j - bx1) then 255 else 0)"
    and rowlen: "length (pasted ! nat i) = nat W"
    if ij: "0 \<le> i" "i < H" "0 \<le> j" "j < W" for i j
  proof -
    have n: "nat i < nat H" "nat j < nat W" using ij by simp_all
    note pp = paste_pixel [OF zsz csz fit n]
    show rl: "length (pasted ! nat i) = nat W" using pp(2) by (simp add: pasted_def)
    have cz: "canvas ! nat i ! nat j = 0" using n by (simp add: canvas_def)
    have m: "map (map saturate_uchar) pasted ! nat i ! nat j = saturate_uchar (pasted ! nat i ! nat j)"
      using n lp rl by simp
    show "map (map saturate_uchar) pasted ! nat i ! nat j =
              (if by1 \<le> i \<and> i < by2 \<and> bx1 \<le> j \<and> j < bx2 \<and>
                  1 / 2 < resized ! nat (i - by1) ! nat (j - bx1) then 255 else 0)"
    proof (cases "by1 \<le> i \<and> i < by2 \<and> bx1 \<le> j \<and> j < bx2")
      case True
      then have k: "nat i - nat by1 < length resized" "nat i - nat by1 = nat (i - by1)"
        "nat j - nat bx1 = nat (j - bx1)"
        using rsz b ij by (auto simp: has_size_def)
      have kr: "nat j - nat bx1 < length (resized ! (nat i - nat by1))"
        using has_size_row [OF rsz k(1)] True b ij by linarith
      have "pasted ! nat i ! nat j = cv_mask ! (nat i - nat by1) ! (nat j - nat bx1)"
        using pp(1) True b ij by (simp add: pasted_def; linarith)
      also have "\<dots> = (if 1 / 2 < resized ! (nat i - nat by1) ! (nat j - nat bx1) then 255 else 0)"
        using k(1) kr by (simp add: cv_mask_def cv_threshold_def)
      finally show ?thesis
        using True m k by (simp add: saturate_uchar_0 saturate_uchar_255)
    next
      case False
      then have "pasted ! nat i ! nat j = 0"
        using pp(1) cz b ij by (simp add: pasted_def; linarith)
      then show ?thesis using False m by (auto simp: saturate_uchar_0)
    qed
  qed
  have sz: "has_size (map (map saturate_uchar) pasted) H W"
  proof -
    have "int (length (pasted ! k)) = W" if "k < length pasted" for k
      using rowlen [of "int k" 0] that lp b by (simp; linarith)
    then show ?thesis
      using lp b by (simp add: has_size_map) (simp add: has_size_def list_all_length)
  qed
  show ?thesis
    using res sz px
    unfolding bx1_def by1_def bx2_def by2_def H_def W_def resized_def by blast
qed

lemma band_replicate:
  assumes "length xs = n" and "a \<le> b" and "b \<le> n"
    and "\<And>i. i < n \<Longrightarrow> xs ! i = (if a \<le> i \<and> i < b then c else z)"
  shows "xs = replicate a z @ replicate (b - a) c @ replicate (n - b) z"
proof (rule nth_equalityI)
  show "length xs = length (replicate a z @ replicate (b - a) c @ replicate (n - b) z)"
    using assms(1-3) by simp
next
  fix i assume "i < length xs"
  then have i: "i < n" using assms(1) by simp
  show "xs ! i = (replicate a z @ replicate (b - a) c @ replicate (n - b) z) ! i"
    using assms(4) [OF i] i assms(2,3) by (auto simp: nth_append)
qed

lemma count_row:
  assumes "length r = n" and "a \<le> b" and "b \<le> n"
    and "\<And>j. j < n \<Longrightarrow> r ! j = (if a \<le> j \<and> j < b then 255 else (0 :: 8 word))"
  shows "length (filter (\<lambda>v. v = 255) r) = b - a"
proof -
  have "r = replicate a 0 @ replicate (b - a) 255 @ replicate (n - b) 0"
    by (rule band_replicate [OF assms])
  then have "filter (\<lambda>v. v = 255) r = replicate (b - a) 255"
    by (simp add: filter_replicate)
  then show ?thesis by simp
qed

lemma scaled_index: "i < n \<Longrightarrow> 0 < L \<Longrightarrow> i * L div n < (L::nat)"
proof -
  assume "i < n" "0 < L"
  then have "0 < n" by simp
  have "i * L < L * n" using \<open>i < n\<close> \<open>0 < L\<close> by simp
  then show ?thesis using \<open>0 < n\<close> by (simp add: less_mult_imp_div_less mult.commute)
qed

lemma sum_band:
  fixes g :: "'a \<Rightarrow> nat"
  assumes "length xs = n" and "a \<le> b" and "b \<le> n"
    and "\<And>i. i < n \<Longrightarrow> g (xs ! i) = (if a \<le> i \<and> i < b then c else 0)"
  shows "sum_list (map g xs) = (b - a) * c"
proof -
  have "map g xs = replicate a 0 @ replicate (b - a) c @ replicate (n - b) 0"
    by (rule band_replicate) (use assms in simp_all)
  then show ?thesis by (simp add: sum_list_replicate)
qed

lemma count_255_box:
  assumes sz: "has_size full H W"
    and b: "0 \<le> bx1" "bx1 \<le> bx2" "bx2 \<le> W" "0 \<le> by1" "by1 \<le> by2" "by2 \<le> H"
    and px: "\<And>i j. 0 \<le> i \<Longrightarrow> i < H \<Longrightarrow> 0 \<le> j \<Longrightarrow> j < W \<Longrightarrow>
               full ! nat i ! nat j =
                 (if by1 \<le> i \<and> i < by2 \<and> bx1 \<le> j \<and> j < bx2 then 255 else 0)"
  shows "count_255 full = nat ((bx2 - bx1) * (by2 - by1))"
proof -
  have lf: "length full = nat H" using sz by (auto simp: has_size_def)
  have pxn: "full ! i ! j =
               (if nat by1 \<le> i \<and> i < nat by2 \<and> nat bx1 \<le> j \<and> j < nat bx2 then 255 else 0)"
    if "i < nat H" "j < nat W" for i j
  proof -
    have "full ! nat (int i) ! nat (int j) =
            (if by1 \<le> int i \<and> int i < by2 \<and> bx1 \<le> int j \<and> int j < bx2 then 255 else 0)"
      by (rule px) (use that in linarith)+
    moreover have "(by1 \<le> int i) = (nat by1 \<le> i)" "(int i < by2) = (i < nat by2)"
      "(bx1 \<le> int j) = (nat bx1 \<le> j)" "(int j < bx2) = (j < nat bx2)"
      using b by linarith+
    ultimately show ?thesis by simp
  qed
  have row: "length (filter (\<lambda>v. v = 255) (full ! i)) =
               (if nat by1 \<le> i \<and> i < nat by2 then nat bx2 - nat bx1 else 0)"
    if i: "i < nat H" for i
  proof -
    have lr: "length (full ! i) = nat W"
      using has_size_row [OF sz, of i] i lf by simp
    show ?thesis
    proof (cases "nat by1 \<le> i \<and> i < nat by2")
      case True
      have "length (filter (\<lambda>v. v = 255) (full ! i)) = nat bx2 - nat bx1"
      proof (rule count_row [OF lr])
        show "nat bx1 \<le> nat bx2" "nat bx2 \<le> nat W" using b by simp_all
        fix j assume j: "j < nat W"
        show "full ! i ! j = (if nat bx1 \<le> j \<and> j < nat bx2 then 255 else 0)"
          using pxn [OF i j] True by simp
      qed
      then show ?thesis using True by simp
    next
      case False
      have "length (filter (\<lambda>v. v = 255) (full ! i)) = 0 - 0"
      proof (rule count_row [OF lr])
        show "(0::nat) \<le> 0" "0 \<le> nat W" by simp_all
        fix j assume j: "j < nat W"
        show "full ! i ! j = (if 0 \<le> j \<and> j < 0 then 255 else 0)"
          using pxn [OF i j] False by auto
      qed
      then show ?thesis using False by auto
    qed
  qed
  have "count_255 full = (nat by2 - nat by1) * (nat bx2 - nat bx1)"
    unfolding count_255_def
  proof (rule sum_band [OF lf])
    show "nat by1 \<le> nat by2" "nat by2 \<le> nat H" using b by simp_all
    fix i assume "i < nat H"
    then show "length (filter (\<lambda>v. v = 255) (full ! i)) =
         (if nat by1 \<le> i \<and> i < nat by2 then nat bx2 - nat bx1 else 0)"
      by (rule row)
  qed
  also have "\<dots> = nat ((bx2 - bx1) * (by2 - by1))"
    using b by (simp add: nat_mult_distrib nat_diff_distrib mult.commute)
  finally show ?thesis .
qed

lemma nearest_size_ok: "resize_size_ok nearest"
  by (simp add: resize_size_ok_def nearest_def has_size_def list_all_iff)

lemma nearest_between: "resize_between nearest"
  unfolding resize_between_def
proof (intro allI impI ballI)
  fix src :: "real Mat" and h w dw dh lo hi r v
  assume a: "has_size src h w \<and> 0 < h \<and> 0 < w \<and> 0 < dw \<and> 0 < dh \<and>
             (\<forall>r\<in>set src. \<forall>v\<in>set r. lo \<le> v \<and> v \<le> hi)"
    and r: "r \<in> set (nearest src dw dh)" and v: "v \<in> set r"
  from a have ne: "src \<noteq> []" by (auto simp: has_size_def)
  from r v obtain i j where ij: "i < nat dh" "j < nat dw"
    and veq: "v = src ! (i * length src div nat dh) ! (j * length (hd src) div nat dw)"
    by (auto simp: nearest_def)
  have ri: "i * length src div nat dh < length src" using ij(1) ne by (simp add: scaled_index)
  have "int (length (hd src)) = w"
    using a ne has_size_row [of src h w 0] by (simp add: hd_conv_nth)
  moreover have "int (length (src ! (i * length src div nat dh))) = w"
    using a has_size_row [OF _ ri] by blast
  moreover have "0 < length (hd src)"
    using a calculation by linarith
  ultimately have cj: "j * length (hd src) div nat dw < length (src ! (i * length src div nat dh))"
    using scaled_index [OF ij(2), of "length (hd src)"] by linarith
  have "src ! (i * length src div nat dh) \<in> set src" using ri by simp
  moreover have "v \<in> set (src ! (i * length src div nat dh))" using cj veq by simp
  ultimately show "lo \<le> v \<and> v \<le> hi" using a by blast
qed

text \<open>
  C8. For a box with positive width and height inside the image, \<^verbatim>\<open>UnmoldMask\<close> returns
  an 8-bit mask of the size of the image: a pixel is 255 when it lies in the box and the
  low-resolution mask, resized to the box, is above 0.5 there, and 0 otherwise. For an
  all-ones low-resolution mask exactly \<open>bw * bh\<close> pixels are 255, those of the box, and
  all others are 0.
\<close>

theorem UnmoldMask_result:
  assumes rs: "resize_size_ok rs" "resize_between rs"
    and msk: "has_size msk mh mw" "0 < mh" "0 < mw"
    and box: "0 \<le> bx1" "bx1 < bx2" "bx2 \<le> W" "0 \<le> by1" "by1 < by2" "by2 \<le> H"
    and rng: "W \<le> 2147483647" "H \<le> 2147483647"
  shows "\<exists>full.
           UnmoldMask rs msk [by1, bx1, by2, bx2] \<lparr>width = W, height = H\<rparr> = Inr full \<and>
           has_size full H W \<and>
           (\<forall>i j. 0 \<le> i \<and> i < H \<and> 0 \<le> j \<and> j < W \<longrightarrow>
              full ! nat i ! nat j =
                (if by1 \<le> i \<and> i < by2 \<and> bx1 \<le> j \<and> j < bx2 \<and>
                    1 / 2 < rs msk (bx2 - bx1) (by2 - by1) ! nat (i - by1) ! nat (j - bx1)
                 then 255 else 0)) \<and>
           ((\<forall>r \<in> set msk. \<forall>v \<in> set r. v = 1) \<longrightarrow>
              count_255 full = nat ((bx2 - bx1) * (by2 - by1)) \<and>
              (\<forall>i j. 0 \<le> i \<and> i < H \<and> 0 \<le> j \<and> j < W \<longrightarrow>
                 full ! nat i ! nat j =
                   (if by1 \<le> i \<and> i < by2 \<and> bx1 \<le> j \<and> j < bx2 then 255 else 0)))"
proof -
  let ?bbox = "[by1, bx1, by2, bx2]"
  let ?shape = "\<lparr>width = W, height = H\<rparr>"
  let ?resized = "rs msk (bx2 - bx1) (by2 - by1)"
  have inside: "box_inside ?shape ?bbox"
    using box by (simp add: box_inside_def)
  from UnmoldMask_pixels [OF rs(1) msk _ inside, simplified, OF rng]
  obtain full where full: "UnmoldMask rs msk ?bbox ?shape = Inr full"
    and sz: "has_size full H W"
    and px: "\<And>i j. 0 \<le> i \<Longrightarrow> i < H \<Longrightarrow> 0 \<le> j \<Longrightarrow> j < W \<Longrightarrow>
               full ! nat i ! nat j =
                 (if by1 \<le> i \<and> i < by2 \<and> bx1 \<le> j \<and> j < bx2 \<and>
                     1 / 2 < ?resized ! nat (i - by1) ! nat (j - bx1)
                  then 255 else 0)"
    by auto
  have ones: "full ! nat i ! nat j =
                (if by1 \<le> i \<and> i < by2 \<and> bx1 \<le> j \<and> j < bx2 then 255 else 0)"
    if all1: "\<forall>r \<in> set msk. \<forall>v \<in> set r. v = 1"
      and ij: "0 \<le> i" "i < H" "0 \<le> j" "j < W" for i j
  proof (cases "by1 \<le> i \<and> i < by2 \<and> bx1 \<le> j \<and> j < bx2")
    case True
    have rsz: "has_size ?resized (by2 - by1) (bx2 - bx1)"
      using rs(1) msk box unfolding resize_size_ok_def by force
    have pre: "has_size msk mh mw \<and> 0 < mh \<and> 0 < mw \<and> 0 < bx2 - bx1 \<and> 0 < by2 - by1 \<and>
               (\<forall>r \<in> set msk. \<forall>v \<in> set r. 1 \<le> v \<and> v \<le> 1)"
      using msk box all1 by auto
    have k: "nat (i - by1) < length ?resized"
      using rsz True by (auto simp: has_size_def)
    have "nat (j - bx1) < length (?resized ! nat (i - by1))"
      using has_size_row [OF rsz k] True by linarith
    then have "?resized ! nat (i - by1) ! nat (j - bx1) \<in> set (?resized ! nat (i - by1))"
      by (rule nth_mem)
    moreover have "?resized ! nat (i - by1) \<in> set ?resized"
      using k by (rule nth_mem)
    ultimately have "1 \<le> ?resized ! nat (i - by1) ! nat (j - bx1) \<and>
                     ?resized ! nat (i - by1) ! nat (j - bx1) \<le> 1"
      using rs(2) [unfolded resize_between_def, rule_format, OF pre] by blast
    then have "?resized ! nat (i - by1) ! nat (j - bx1) = 1"
      by linarith
    then show ?thesis using px [OF ij] True by simp
  next
    case False
    then show ?thesis using px [OF ij] by auto
  qed
  have cnt: "count_255 full = nat ((bx2 - bx1) * (by2 - by1))"
    if all1: "\<forall>r \<in> set msk. \<forall>v \<in> set r. v = 1"
  proof (rule count_255_box [OF sz])
    show "0 \<le> bx1" "bx1 \<le> bx2" "bx2 \<le> W" "0 \<le> by1" "by1 \<le> by2" "by2 \<le> H"
      using box by simp_all
    fix i j assume "0 \<le> i" "i < H" "0 \<le> j" "j < W"
    then show "full ! nat i ! nat j =
                 (if by1 \<le> i \<and> i < by2 \<and> bx1 \<le> j \<and> j < bx2 then 255 else 0)"
      by (rule ones [OF all1])
  qed
  show ?thesis
  proof (intro exI [of _ full] conjI allI impI)
    show "UnmoldMask rs msk ?bbox ?shape = Inr full" by (rule full)
    show "has_size full H W" by (rule sz)
    show "full ! nat i ! nat j =
            (if by1 \<le> i \<and> i < by2 \<and> bx1 \<le> j \<and> j < bx2 \<and>
                1 / 2 < ?resized ! nat (i - by1) ! nat (j - bx1) then 255 else 0)"
      if "0 \<le> i \<and> i < H \<and> 0 \<le> j \<and> j < W" for i j
      using that px by blast
    show "count_255 full = nat ((bx2 - bx1) * (by2 - by1))"
      if "\<forall>r \<in> set msk. \<forall>v \<in> set r. v = 1"
      using that by (rule cnt)
    show "full ! nat i ! nat j =
            (if by1 \<le> i \<and> i < by2 \<and> bx1 \<le> j \<and> j < bx2 then 255 else 0)"
      if "\<forall>r \<in> set msk. \<forall>v \<in> set r. v = 1" "0 \<le> i \<and> i < H \<and> 0 \<le> j \<and> j < W" for i j
      using that ones by blast
  qed
qed

theorem UnmoldMask_result_witness:
  "UnmoldMask nearest [[1, 1], [1, 1]] [1, 1, 3, 4] \<lparr>width = 5, height = 4\<rparr> =
     Inr [[0, 0, 0, 0, 0], [0, 255, 255, 255, 0], [0, 255, 255, 255, 0], [0, 0, 0, 0, 0]] \<and>
   count_255 [[0, 0, 0, 0, 0], [0, 255, 255, 255, 0], [0, 255, 255, 255, 0], [0, 0, 0, 0, 0]] = 6"
proof -
  have e: "UnmoldMask nearest [[1, 1], [1, 1]] [1, 1, 3, 4] \<lparr>width = 5, height = 4\<rparr> =
     Inr [[0, 0, 0, 0, 0], [0, 255, 255, 255, 0], [0, 255, 255, 255, 0], [0, 0, 0, 0, 0]]"
    by code_simp
  have m: "has_size [[1, 1], [1, 1 :: real]] 2 2"
    by (simp add: has_size_def)
  from UnmoldMask_result [OF nearest_size_ok nearest_between m, of 1 4 5 1 3 4]
  obtain full where
    "UnmoldMask nearest [[1, 1], [1, 1]] [1, 1, 3, 4] \<lparr>width = 5, height = 4\<rparr> = Inr full"
    "count_255 full = 6"
    by auto
  with e show ?thesis by simp
qed

subsection \<open>UnmoldDetections\<close>

lemma collect_Inr: "collect xs = Inr vs \<Longrightarrow> xs = map Inr vs"
  by (induction xs arbitrary: vs) (auto split: sum.splits)

lemma collect_length: "collect xs = Inr vs \<Longrightarrow> length vs = length xs"
  by (drule collect_Inr) simp

lemma collect_nth: "collect xs = Inr vs \<Longrightarrow> i < length xs \<Longrightarrow> xs ! i = Inr (vs ! i)"
  by (drule collect_Inr) simp

lemma collect_map_Inr:
  assumes "\<And>x. x \<in> set xs \<Longrightarrow> f x = Inr (g x)"
  shows "collect (map f xs) = Inr (map g xs)"
  using assms by (induction xs) auto

lemma index_select_nonzero:
  "index_select xs (nonzero (map P xs)) = filter P xs"
proof -
  have "filter P xs = filter P (map (\<lambda>i. xs ! i) [0..<length xs])"
    by (simp add: map_nth)
  also have "\<dots> = map (\<lambda>i. xs ! i) (filter (\<lambda>i. P (xs ! i)) [0..<length xs])"
    by (simp add: filter_map comp_def)
  also have "filter (\<lambda>i. P (xs ! i)) [0..<length xs] = nonzero (map P xs)"
    by (auto simp: nonzero_def intro: filter_cong)
  finally show ?thesis by (simp add: index_select_def)
qed

lemma detection_count_le: "detection_count detections \<le> length detections"
proof -
  let ?z = "nonzero (map (\<lambda>r. r ! 4 = 0) detections)"
  show ?thesis
  proof (cases "?z = []")
    case True
    then show ?thesis by (simp add: detection_count_def)
  next
    case False
    then have "hd ?z \<in> set ?z" by simp
    then have "hd ?z < length detections" by (simp add: nonzero_def)
    moreover have "unat (of_nat (hd ?z) :: 8 word) \<le> hd ?z"
      by (simp add: unat_of_nat)
    ultimately show ?thesis using False by (simp add: detection_count_def Let_def)
  qed
qed

lemma length_index_select: "length (index_select xs ix) = length ix"
  by (simp add: index_select_def)

text \<open>What a returned result of \<^verbatim>\<open>UnmoldDetections\<close> went through.\<close>

lemma UnmoldDetections_Inr:
  assumes "UnmoldDetections rs detections mrcnn_mask image_shape window =
             Inr (boxes, class_ids, scores, full_masks)"
  defines "scale \<equiv> fmin (fdiv (Fin (real_of_int (height image_shape)))
                                   (Fin (real_of_int (y2 window - y1 window))))
                                (fdiv (Fin (real_of_int (width image_shape)))
                                   (Fin (real_of_int (x2 window - x1 window))))"
  shows "\<exists>boxes0 masks.
           list_all (\<lambda>r. 6 \<le> length r) detections \<and>
           translate_boxes (map (take 4) (take (detection_count detections) detections))
             [real_of_int (y1 window), real_of_int (x1 window),
              real_of_int (y1 window), real_of_int (x1 window)]
             [scale, scale, scale, scale] = Inr boxes0 \<and>
           boxes = (if 0 < length (nonzero (map (\<lambda>b. 0 < box_area b) boxes0))
                    then filter (\<lambda>b. 0 < box_area b) boxes0 else boxes0) \<and>
           collect (map (\<lambda>i. UnmoldMask rs (masks ! i) (boxes ! i) image_shape)
                      [0..<length boxes]) = Inr full_masks"
proof -
  let ?N = "detection_count detections"
  let ?shifts = "[real_of_int (y1 window), real_of_int (x1 window),
              real_of_int (y1 window), real_of_int (x1 window)]"
  let ?scores = "map (\<lambda>r. take 1 (drop 5 r)) (take ?N detections)"
  from assms(1) have wf: "list_all (\<lambda>r. 6 \<le> length r) detections"
    by (simp add: UnmoldDetections_def split: if_splits)
  from assms(1) obtain class_ids0 :: "int list" and masks0 :: "real Mat list"
    and boxes0 :: "int list list" where
    t: "translate_boxes (map (take 4) (take ?N detections)) ?shifts
             [scale, scale, scale, scale] = Inr boxes0"
    and r1: "0 < length (nonzero (map (\<lambda>b. 0 < box_area b) boxes0)) \<Longrightarrow>
       collect (map (\<lambda>i. UnmoldMask rs
                  (index_select masks0 (nonzero (map (\<lambda>b. 0 < box_area b) boxes0)) ! i)
                  (index_select boxes0 (nonzero (map (\<lambda>b. 0 < box_area b) boxes0)) ! i)
                  image_shape)
            [0..<length (index_select class_ids0 (nonzero (map (\<lambda>b. 0 < box_area b) boxes0)))])
         = Inr full_masks \<and>
       boxes = index_select boxes0 (nonzero (map (\<lambda>b. 0 < box_area b) boxes0))"
    and r2: "\<not> 0 < length (nonzero (map (\<lambda>b. 0 < box_area b) boxes0)) \<Longrightarrow>
       collect (map (\<lambda>i. UnmoldMask rs (masks0 ! i) (boxes0 ! i) image_shape) [0..<?N])
         = Inr full_masks \<and> boxes = boxes0"
    unfolding UnmoldDetections_def scale_def
    by (auto simp: Let_def simp del: fdiv.simps of_int_diff split: if_splits sum.splits)
  have lb: "length boxes0 = ?N"
    using collect_length [OF t [unfolded translate_boxes_def]] detection_count_le [of detections]
    by simp
  let ?ix = "nonzero (map (\<lambda>b. 0 < box_area b) boxes0)"
  show ?thesis
  proof (cases "0 < length ?ix")
    case True
    from r1 [OF True] have
      "collect (map (\<lambda>i. UnmoldMask rs (index_select masks0 ?ix ! i) (index_select boxes0 ?ix ! i)
                         image_shape) [0..<length (index_select class_ids0 ?ix)]) = Inr full_masks"
      and b: "boxes = index_select boxes0 ?ix"
      by simp_all
    then have "collect (map (\<lambda>i. UnmoldMask rs (index_select masks0 ?ix ! i) (boxes ! i)
                         image_shape) [0..<length boxes]) = Inr full_masks"
      by (simp add: length_index_select)
    moreover have "boxes = filter (\<lambda>b. 0 < box_area b) boxes0"
      using b by (simp add: index_select_nonzero)
    ultimately show ?thesis using t True wf by auto
  next
    case False
    from r2 [OF False] have
      "collect (map (\<lambda>i. UnmoldMask rs (masks0 ! i) (boxes0 ! i) image_shape) [0..<?N])
         = Inr full_masks"
      and b: "boxes = boxes0"
      by simp_all
    then have "collect (map (\<lambda>i. UnmoldMask rs (masks0 ! i) (boxes ! i) image_shape)
                 [0..<length boxes]) = Inr full_masks"
      using lb by simp
    then show ?thesis using t False b wf by auto
  qed
qed

lemma take_4:
  assumes "4 \<le> length r"
  shows "take 4 r = [r ! 0, r ! 1, r ! 2, r ! 3]"
proof -
  from assms obtain a b c d rest where "r = a # b # c # d # rest"
    by (auto simp: numeral_eq_Suc Suc_le_length_iff)
  then show ?thesis by simp
qed

lemma translate_row:
  assumes "collect (map to_int32
             (map2 (\<lambda>d s. fmul (Fin d) s) (map2 (\<lambda>b s. b - s) [a, b, c, d] [sy, sx, sy, sx])
                [Fin s, Fin s, Fin s, Fin s])) = Inr row"
  shows "row = [ctrunc ((a - sy) * s), ctrunc ((b - sx) * s),
                ctrunc ((c - sy) * s), ctrunc ((d - sx) * s)]"
  using assms by (simp split: if_splits)

lemma translate_boxes_spec:
  assumes "translate_boxes (map (take 4) rows) [sy, sx, sy, sx] [Fin s, Fin s, Fin s, Fin s]
             = Inr boxes0"
    and "list_all (\<lambda>r. 4 \<le> length r) rows"
  shows "boxes0 = map (\<lambda>r. [ctrunc ((r ! 0 - sy) * s), ctrunc ((r ! 1 - sx) * s),
                              ctrunc ((r ! 2 - sy) * s), ctrunc ((r ! 3 - sx) * s)]) rows"
  using assms
proof (induction rows arbitrary: boxes0)
  case Nil
  then show ?case by (simp add: translate_boxes_def)
next
  case (Cons r rows)
  from Cons.prems(2) have r4: "take 4 r = [r ! 0, r ! 1, r ! 2, r ! 3]"
    by (simp add: take_4)
  from Cons.prems(1) obtain row rest where
    row: "collect (map to_int32
             (map2 (\<lambda>d s. fmul (Fin d) s)
                (map2 (\<lambda>b s. b - s) [r ! 0, r ! 1, r ! 2, r ! 3] [sy, sx, sy, sx])
                [Fin s, Fin s, Fin s, Fin s])) = Inr row"
    and rest: "translate_boxes (map (take 4) rows) [sy, sx, sy, sx] [Fin s, Fin s, Fin s, Fin s]
                 = Inr rest"
    and b: "boxes0 = row # rest"
    unfolding translate_boxes_def r4 list.map collect.simps
    by (auto split: sum.splits)
  from Cons.IH [OF rest] Cons.prems(2) translate_row [OF row] b
  show ?case by simp
qed

lemma UnmoldDetections_inside:
  assumes "UnmoldDetections rs detections mrcnn_mask image_shape window =
             Inr (boxes, class_ids, scores, full_masks)"
  shows "list_all (box_inside image_shape) boxes \<and> length full_masks = length boxes"
proof -
  from UnmoldDetections_Inr [OF assms]
  obtain masks where c: "collect (map (\<lambda>i. UnmoldMask rs (masks ! i) (boxes ! i) image_shape)
                      [0..<length boxes]) = Inr full_masks"
    by blast
  have "box_inside image_shape (boxes ! i)" if "i < length boxes" for i
  proof -
    from collect_nth [OF c, of i] that
    have "UnmoldMask rs (masks ! i) (boxes ! i) image_shape = Inr (full_masks ! i)"
      by simp
    then show ?thesis by (simp add: UnmoldMask_Inr_inside)
  qed
  moreover have "length full_masks = length boxes"
    using collect_length [OF c] by simp
  ultimately show ?thesis by (simp add: list_all_length)
qed






text \<open>
  C1. When every detection is filtered out the result is to be an empty set of boxes, class
  ids, scores and masks. In the source the branch for an empty \<^verbatim>\<open>include_ix\<close> holds only
  the comment \<^verbatim>\<open>TODO: make empty tensors\<close>: nothing is removed, \<open>N\<close> keeps its value and the
  loop calls \<^verbatim>\<open>UnmoldMask\<close> on the boxes of no area, which OpenCV refuses. Two detections of
  no area give an error and not the empty result.
\<close>

theorem UnmoldDetections_all_filtered:
  "translate_boxes (map (take 4) (take (detection_count dets_flat) dets_flat))
     [0, 0, 0, 0] [Fin 1, Fin 1, Fin 1, Fin 1] = Inr [[2, 2, 2, 6], [3, 3, 5, 3]] \<and>
   box_area [2, 2, 2, 6] = 0 \<and> box_area [3, 3, 5, 3] = 0 \<and>
   UnmoldDetections nearest dets_flat stack3 \<lparr>width = 8, height = 8\<rparr>
     \<lparr>y1 = 0, x1 = 0, y2 = 8, x2 = 8\<rparr> = Inl CvError"
  by code_simp

text \<open>
  C2. \<open>N\<close> is to be the index of the first row whose class id is zero. The source reads
  that index, an element of a 64-bit index tensor, through \<^verbatim>\<open>data<uint8_t>()\<close>, so \<open>N\<close> is the
  index modulo 256: with the first zero row at index 256 the count is 0.
\<close>

theorem detection_count_wraps:
  "hd (nonzero (map (\<lambda>r. r ! 4 = 0) dets_257)) = 256 \<and> detection_count dets_257 = 0"
  by code_simp

lemma length_nonzero: "length (nonzero bs) \<le> length bs"
  using length_filter_le [of "\<lambda>i. bs ! i" "[0..<length bs]"] by (simp add: nonzero_def)

lemma UnmoldDetections_lengths:
  assumes "UnmoldDetections rs detections mrcnn_mask image_shape window =
             Inr (boxes, class_ids, scores, full_masks)"
  shows "length class_ids = length boxes \<and> length scores = length boxes \<and>
         length boxes \<le> detection_count detections"
proof -
  let ?N = "detection_count detections"
  let ?scores = "map (\<lambda>r. take 1 (drop 5 r)) (take ?N detections)"
  have le: "?N \<le> length detections" by (rule detection_count_le)
  from assms obtain class_ids0 :: "int list" and boxes0 :: "int list list" and sc sh where
    c: "collect (map (\<lambda>r. to_int64 (r ! 4)) (take ?N detections)) = Inr class_ids0"
    and t: "translate_boxes (map (take 4) (take ?N detections)) sh sc = Inr boxes0"
    and r1: "0 < length (nonzero (map (\<lambda>b. 0 < box_area b) boxes0)) \<Longrightarrow>
       boxes = index_select boxes0 (nonzero (map (\<lambda>b. 0 < box_area b) boxes0)) \<and>
       class_ids = index_select class_ids0 (nonzero (map (\<lambda>b. 0 < box_area b) boxes0)) \<and>
       scores = index_select ?scores (nonzero (map (\<lambda>b. 0 < box_area b) boxes0))"
    and r2: "\<not> 0 < length (nonzero (map (\<lambda>b. 0 < box_area b) boxes0)) \<Longrightarrow>
       boxes = boxes0 \<and> class_ids = class_ids0 \<and> scores = ?scores"
    unfolding UnmoldDetections_def
    by (auto simp: Let_def simp del: fdiv.simps of_int_diff split: if_splits sum.splits)
  have lb: "length boxes0 = ?N"
    using collect_length [OF t [unfolded translate_boxes_def]] le by simp
  have lc: "length class_ids0 = ?N"
    using collect_length [OF c] le by simp
  show ?thesis
  proof (cases "0 < length (nonzero (map (\<lambda>b. 0 < box_area b) boxes0))")
    case True
    from r1 [OF True] length_nonzero [of "map (\<lambda>b. 0 < box_area b) boxes0"] lb
    show ?thesis by (simp add: length_index_select)
  next
    case False
    from r2 [OF False] lb lc le show ?thesis by simp
  qed
qed

text \<open>
  What a returned result of \<^verbatim>\<open>UnmoldDetections\<close> always satisfies: the boxes, class ids,
  scores and masks are equally many and at most \<open>N\<close>, and every returned box has a positive
  width and a positive height.
\<close>

theorem UnmoldDetections_outputs:
  assumes "UnmoldDetections rs detections mrcnn_mask image_shape window =
             Inr (boxes, class_ids, scores, full_masks)"
  shows "length class_ids = length boxes \<and> length scores = length boxes \<and>
         length full_masks = length boxes \<and>
         length boxes \<le> detection_count detections \<and>
         list_all (\<lambda>b. 0 < b ! 3 - b ! 1 \<and> 0 < b ! 2 - b ! 0) boxes"
proof -
  from UnmoldDetections_inside [OF assms]
  have "list_all (box_inside image_shape) boxes" and l: "length full_masks = length boxes"
    by simp_all
  then have "list_all (\<lambda>b. 0 < b ! 3 - b ! 1 \<and> 0 < b ! 2 - b ! 0) boxes"
    by (simp add: list_all_iff box_inside_def)
  with UnmoldDetections_lengths [OF assms] l show ?thesis by simp
qed

theorem UnmoldDetections_outputs_witness:
  "length [[0 :: int, 0, 2, 2], [1, 1, 3, 4]] \<le> detection_count dets_ok \<and>
   list_all (\<lambda>b. 0 < b ! 3 - b ! 1 \<and> 0 < b ! 2 - b ! 0) [[0 :: int, 0, 2, 2], [1, 1, 3, 4]]"
proof -
  have e: "UnmoldDetections nearest dets_ok stack3 \<lparr>width = 4, height = 3\<rparr>
       \<lparr>y1 = 2, x1 = 2, y2 = 8, x2 = 10\<rparr> =
     Inr ([[0, 0, 2, 2], [1, 1, 3, 4]], [1, 1], [[9 / 10], [4 / 5]],
          [[[255, 255, 0, 0], [255, 255, 0, 0], [0, 0, 0, 0]],
           [[0, 0, 0, 0], [0, 255, 255, 255], [0, 255, 255, 255]]])"
    by code_simp
  from UnmoldDetections_outputs [OF e] show ?thesis by simp
qed

lemma nonzero_first:
  assumes "i < length bs" and "bs ! i" and "\<forall>j<i. \<not> bs ! j"
  shows "nonzero bs = i # filter (\<lambda>k. bs ! k) [Suc i..<length bs]"
proof -
  have "[0..<length bs] = [0..<i] @ i # [Suc i..<length bs]"
    using assms(1) by (metis less_imp_le_nat upt_add_eq_append upt_conv_Cons zero_le le_add_diff_inverse)
  moreover have "filter (\<lambda>k. bs ! k) [0..<i] = []"
    using assms(3) by (simp add: filter_empty_conv)
  ultimately show ?thesis using assms(2) by (simp add: nonzero_def)
qed

text \<open>
  The value of \<open>N\<close>: the index of the first row whose class id is zero, modulo 256, and the
  number of rows when no row has the class id zero.
\<close>

theorem detection_count_value:
  "(i < length detections \<and> detections ! i ! 4 = 0 \<and> (\<forall>j<i. detections ! j ! 4 \<noteq> 0)
      \<longrightarrow> detection_count detections = i mod 256) \<and>
   ((\<forall>r \<in> set detections. r ! 4 \<noteq> 0) \<longrightarrow> detection_count detections = length detections)"
proof (intro conjI impI)
  assume a: "i < length detections \<and> detections ! i ! 4 = 0 \<and> (\<forall>j<i. detections ! j ! 4 \<noteq> 0)"
  let ?bs = "map (\<lambda>r. r ! 4 = 0) detections"
  have "nonzero ?bs = i # filter (\<lambda>k. ?bs ! k) [Suc i..<length ?bs]"
    by (rule nonzero_first) (use a in auto)
  then show "detection_count detections = i mod 256"
    by (simp add: detection_count_def unat_of_nat)
next
  assume a: "\<forall>r \<in> set detections. r ! 4 \<noteq> 0"
  have "nonzero (map (\<lambda>r. r ! 4 = 0) detections) = []"
    using a by (auto simp: nonzero_def filter_empty_conv)
  then show "detection_count detections = length detections"
    by (simp add: detection_count_def)
qed

theorem detection_count_value_witness:
  "detection_count dets_ok = 2 \<and> detection_count [[2, 2, 6, 6, 1, 9 / 10]] = 1"
  using detection_count_value [of 2 dets_ok] detection_count_value [of 0 "[[2, 2, 6, 6, 1, 9 / 10]]"]
  by (simp add: dets_ok_def less_Suc_eq numeral_2_eq_2)

lemma collect_to_int64:
  assumes "collect (map (\<lambda>r. to_int64 (f r)) rows) = Inr vs"
  shows "vs = map (\<lambda>r. ctrunc (f r)) rows"
  using assms
  by (induction rows arbitrary: vs) (auto simp: to_int64_def split: sum.splits if_splits)

lemma sorted_nonzero: "sorted_wrt (<) (nonzero bs)"
  by (simp add: nonzero_def sorted_wrt_filter)

lemma set_nonzero: "set (nonzero bs) \<subseteq> {..<length bs}"
  by (auto simp: nonzero_def)

lemma index_select_map:
  assumes "set ix \<subseteq> {..<length xs}"
  shows "index_select (map f xs) ix = map (\<lambda>i. f (xs ! i)) ix"
  using assms by (auto simp: index_select_def)

lemma index_select_all: "index_select xs [0..<length xs] = xs"
  by (simp add: index_select_def map_nth)

text \<open>
  The returned boxes, class ids and scores are those of the same rows of the buffer, kept in
  the order of the buffer: there are increasing indices below \<open>N\<close> such that the \<open>k\<close>-th
  box is the remapped box of the \<open>k\<close>-th of these rows, the \<open>k\<close>-th class id its truncated
  class id and the \<open>k\<close>-th score its score.
\<close>

theorem UnmoldDetections_rows:
  assumes "UnmoldDetections rs detections mrcnn_mask image_shape window =
             Inr (boxes, class_ids, scores, full_masks)"
    and "y1 window \<noteq> y2 window" and "x1 window \<noteq> x2 window"
  shows "\<exists>ix. sorted_wrt (<) ix \<and> set ix \<subseteq> {..<detection_count detections} \<and>
           boxes = map (\<lambda>i. remap_box_spec image_shape window (detections ! i)) ix \<and>
           class_ids = map (\<lambda>i. ctrunc (detections ! i ! 4)) ix \<and>
           scores = map (\<lambda>i. [detections ! i ! 5]) ix"
proof -
  let ?N = "detection_count detections"
  let ?rows = "take ?N detections"
  let ?scores = "map (\<lambda>r. take 1 (drop 5 r)) ?rows"
  let ?s = "min (real_of_int (height image_shape) / real_of_int (y2 window - y1 window))
                (real_of_int (width image_shape) / real_of_int (x2 window - x1 window))"
  have sc: "fmin (fdiv (Fin (real_of_int (height image_shape)))
                    (Fin (real_of_int (y2 window - y1 window))))
                 (fdiv (Fin (real_of_int (width image_shape)))
                    (Fin (real_of_int (x2 window - x1 window)))) = Fin ?s"
    using assms(2,3) by (simp add: fmin_Fin)
  have le: "?N \<le> length detections" by (rule detection_count_le)
  then have lr: "length ?rows = ?N" by simp
  from assms(1) have wf: "list_all (\<lambda>r. 6 \<le> length r) detections"
    by (simp add: UnmoldDetections_def split: if_splits)
  from assms(1) obtain class_ids0 :: "int list" and boxes0 :: "int list list" where
    c: "collect (map (\<lambda>r. to_int64 (r ! 4)) ?rows) = Inr class_ids0"
    and t: "translate_boxes (map (take 4) ?rows)
              [real_of_int (y1 window), real_of_int (x1 window),
               real_of_int (y1 window), real_of_int (x1 window)]
              [Fin ?s, Fin ?s, Fin ?s, Fin ?s] = Inr boxes0"
    and r1: "0 < length (nonzero (map (\<lambda>b. 0 < box_area b) boxes0)) \<Longrightarrow>
       boxes = index_select boxes0 (nonzero (map (\<lambda>b. 0 < box_area b) boxes0)) \<and>
       class_ids = index_select class_ids0 (nonzero (map (\<lambda>b. 0 < box_area b) boxes0)) \<and>
       scores = index_select ?scores (nonzero (map (\<lambda>b. 0 < box_area b) boxes0))"
    and r2: "\<not> 0 < length (nonzero (map (\<lambda>b. 0 < box_area b) boxes0)) \<Longrightarrow>
       boxes = boxes0 \<and> class_ids = class_ids0 \<and> scores = ?scores"
    unfolding UnmoldDetections_def sc [symmetric]
    by (auto simp: Let_def simp del: fdiv.simps of_int_diff split: if_splits sum.splits)
  have wf4: "list_all (\<lambda>r. 4 \<le> length r) ?rows"
    using wf by (auto simp: list_all_iff dest!: in_set_takeD)
  have b0: "boxes0 = map (remap_box_spec image_shape window) ?rows"
    using translate_boxes_spec [OF t wf4] by (simp add: remap_box_spec_def Let_def)
  have c0: "class_ids0 = map (\<lambda>r. ctrunc (r ! 4)) ?rows"
    by (rule collect_to_int64 [OF c])
  have s0: "?scores = map (\<lambda>r. [r ! 5]) ?rows"
  proof (rule map_cong [OF refl])
    fix r assume "r \<in> set ?rows"
    then have "6 \<le> length r" using wf by (auto simp: list_all_iff dest!: in_set_takeD)
    then show "take 1 (drop 5 r) = [r ! 5]"
      by (simp add: take_Suc_conv_app_nth)
  qed
  define ix where "ix = (if 0 < length (nonzero (map (\<lambda>b. 0 < box_area b) boxes0))
                          then nonzero (map (\<lambda>b. 0 < box_area b) boxes0) else [0..<?N])"
  have lb: "length boxes0 = ?N" using b0 lr by simp
  have sub: "set ix \<subseteq> {..<?N}"
    using set_nonzero [of "map (\<lambda>b. 0 < box_area b) boxes0"] lb by (auto simp: ix_def)
  have srt: "sorted_wrt (<) ix"
    by (simp add: ix_def sorted_nonzero)
  have sel: "boxes = index_select boxes0 ix \<and> class_ids = index_select class_ids0 ix \<and>
             scores = index_select ?scores ix"
  proof (cases "0 < length (nonzero (map (\<lambda>b. 0 < box_area b) boxes0))")
    case True
    with r1 show ?thesis by (simp add: ix_def)
  next
    case False
    have "index_select boxes0 [0..<?N] = boxes0" "index_select class_ids0 [0..<?N] = class_ids0"
      "index_select ?scores [0..<?N] = ?scores"
      using index_select_all [of boxes0] index_select_all [of class_ids0]
        index_select_all [of ?scores] lb c0 lr by simp_all
    with r2 [OF False] False show ?thesis by (simp add: ix_def)
  qed
  have nth: "?rows ! i = detections ! i" if "i \<in> set ix" for i
    using that sub by auto
  have sub': "set ix \<subseteq> {..<length ?rows}" using sub lr by simp
  have conv: "index_select (map f ?rows) ix = map (\<lambda>i. f (detections ! i)) ix" for f :: "real list \<Rightarrow> 'b"
  proof -
    have "index_select (map f ?rows) ix = map (\<lambda>i. f (?rows ! i)) ix"
      by (rule index_select_map [OF sub'])
    also have "\<dots> = map (\<lambda>i. f (detections ! i)) ix"
      by (rule map_cong [OF refl]) (simp add: nth)
    finally show ?thesis .
  qed
  have "boxes = map (\<lambda>i. remap_box_spec image_shape window (detections ! i)) ix"
    using sel unfolding b0 conv by blast
  moreover have "class_ids = map (\<lambda>i. ctrunc (detections ! i ! 4)) ix"
    using sel unfolding c0 conv by blast
  moreover have "scores = map (\<lambda>i. [detections ! i ! 5]) ix"
    using sel unfolding s0 conv by blast
  ultimately show ?thesis using srt sub by blast
qed

theorem UnmoldDetections_rows_witness:
  "\<exists>ix. sorted_wrt (<) ix \<and> set ix \<subseteq> {..<detection_count dets_ok} \<and>
     [[0, 0, 2, 2], [1, 1, 3, 4]] =
       map (\<lambda>i. remap_box_spec \<lparr>width = 4, height = 3\<rparr> \<lparr>y1 = 2, x1 = 2, y2 = 8, x2 = 10\<rparr>
                  (dets_ok ! i)) ix \<and>
     [1, 1] = map (\<lambda>i. ctrunc (dets_ok ! i ! 4)) ix \<and>
     [[9 / 10], [4 / 5]] = map (\<lambda>i. [dets_ok ! i ! 5]) ix"
proof -
  have e: "UnmoldDetections nearest dets_ok stack3 \<lparr>width = 4, height = 3\<rparr>
       \<lparr>y1 = 2, x1 = 2, y2 = 8, x2 = 10\<rparr> =
     Inr ([[0, 0, 2, 2], [1, 1, 3, 4]], [1, 1], [[9 / 10], [4 / 5]],
          [[[255, 255, 0, 0], [255, 255, 0, 0], [0, 0, 0, 0]],
           [[0, 0, 0, 0], [0, 255, 255, 255], [0, 255, 255, 255]]])"
    by code_simp
  from UnmoldDetections_rows [OF e] show ?thesis by simp
qed

subsection \<open>ResizeMasks\<close>












end
